theory Spec2Isabelle
  imports Main
begin

section \<open>The timed map of \<^verbatim>\<open>timedmap.go\<close>\<close>

subsection \<open>Time\<close>

text \<open>
  \<^verbatim>\<open>time.Time\<close> and \<^verbatim>\<open>time.Duration\<close> belong to Go's standard library. An instant is
  modelled as its position on the time line in nanoseconds and a duration as a signed
  number of nanoseconds. \<^verbatim>\<open>t.Add(d)\<close> moves the instant by \<open>d\<close>, and \<^verbatim>\<open>t.After(u)\<close>
  is the strict order. A \<^verbatim>\<open>Duration\<close> is a 64-bit count, about 292 years either way,
  and \<^verbatim>\<open>Add\<close> on the reading of a real clock stays inside the range of
  \<^verbatim>\<open>Time\<close>, so nothing wraps; the integers of the model include every such value.
  The reading of \<^verbatim>\<open>time.Now()\<close> is an argument of every function that reads the
  clock.
\<close>

type_synonym time = int
type_synonym duration = int

definition Add :: "time \<Rightarrow> duration \<Rightarrow> time" where
  "Add t d = t + d"

definition After :: "time \<Rightarrow> time \<Rightarrow> bool" where
  "After t u = (u < t)"

subsection \<open>Entries and the map\<close>

text \<open>
  \<^verbatim>\<open>type mapEntry[V any] struct { expiresAt time.Time; v V }\<close>
\<close>

record 'v mapEntry =
  expiresAt :: time
  v :: 'v

text \<open>
  \<^verbatim>\<open>func (me *mapEntry[V]) isExpired() bool { return time.Now().After(me.expiresAt) }\<close>
\<close>

definition isExpired :: "time \<Rightarrow> 'v mapEntry \<Rightarrow> bool" where
  "isExpired now me = After now (expiresAt me)"

text \<open>
  \<^verbatim>\<open>type Map[K comparable, V any] struct { defaultExpiration; mu; m map[K]mapEntry[V] }\<close>.
  The lock \<^verbatim>\<open>mu\<close> is held for the whole body of every method, so every method is one
  atomic step on the other two fields. The backing map \<^verbatim>\<open>m\<close> is created by \<^verbatim>\<open>New\<close>
  and no method hands the reference out, so the struct owns it and it is modelled by its
  contents.
\<close>

record ('k, 'v) Map =
  defaultExpiration :: duration
  m :: "'k \<rightharpoonup> 'v mapEntry"

definition New :: "duration \<Rightarrow> ('k, 'v) Map" where
  "New t = \<lparr>defaultExpiration = t, m = Map.empty\<rparr>"

subsection \<open>The methods on one key\<close>

text \<open>
  Every method takes the clock reading \<open>now\<close> and the receiver and returns its result
  together with the receiver after the call. \<open>zero\<close> is Go's zero value of \<open>V\<close>.
\<close>

definition Get :: "'v \<Rightarrow> time \<Rightarrow> ('k, 'v) Map \<Rightarrow> 'k \<Rightarrow> ('v \<times> bool) \<times> ('k, 'v) Map" where
  "Get zero now tm k =
     (case m tm k of
        None \<Rightarrow> ((zero, False), tm)
      | Some me \<Rightarrow> if isExpired now me then ((zero, False), tm) else ((v me, True), tm))"

definition Set :: "time \<Rightarrow> ('k, 'v) Map \<Rightarrow> 'k \<Rightarrow> 'v \<Rightarrow> ('k, 'v) Map" where
  "Set now tm k x =
     tm\<lparr>m := (m tm)(k \<mapsto> \<lparr>expiresAt = Add now (defaultExpiration tm), v = x\<rparr>)\<rparr>"

definition Delete :: "time \<Rightarrow> ('k, 'v) Map \<Rightarrow> 'k \<Rightarrow> bool \<times> ('k, 'v) Map" where
  "Delete now tm k =
     (let retval = (case m tm k of None \<Rightarrow> False | Some entry \<Rightarrow> \<not> isExpired now entry)
      in (retval, tm\<lparr>m := (m tm)(k := None)\<rparr>))"

definition SetExpiration :: "('k, 'v) Map \<Rightarrow> 'k \<Rightarrow> time \<Rightarrow> bool \<times> ('k, 'v) Map" where
  "SetExpiration tm k expires =
     (case m tm k of
        None \<Rightarrow> (False, tm)
      | Some e \<Rightarrow> (True, tm\<lparr>m := (m tm)(k \<mapsto> e\<lparr>expiresAt := expires\<rparr>)\<rparr>))"

definition Reset :: "time \<Rightarrow> ('k, 'v) Map \<Rightarrow> 'k \<Rightarrow> bool \<times> ('k, 'v) Map" where
  "Reset now tm k =
     (case m tm k of
        None \<Rightarrow> (False, tm)
      | Some e \<Rightarrow>
          (True, tm\<lparr>m := (m tm)(k \<mapsto> e\<lparr>expiresAt := Add now (defaultExpiration tm)\<rparr>)\<rparr>))"

text \<open>
  The earlier version of the package writes \<^verbatim>\<open>Reset\<close> as a call:
  \<^verbatim>\<open>return m.SetExpiration(k, time.Now().Add(m.timeout))\<close>, where \<^verbatim>\<open>timeout\<close> is the
  field that \<^verbatim>\<open>timedmap.go\<close> names \<^verbatim>\<open>defaultExpiration\<close>. Its
  \<^verbatim>\<open>SetExpiration\<close> differs from the one above only in taking the lock twice.
\<close>

definition timerdb_Reset :: "time \<Rightarrow> ('k, 'v) Map \<Rightarrow> 'k \<Rightarrow> bool \<times> ('k, 'v) Map" where
  "timerdb_Reset now tm k = SetExpiration tm k (Add now (defaultExpiration tm))"

subsection \<open>The range loops\<close>

text \<open>
  \<^verbatim>\<open>for k, v := range m.m\<close> visits every entry of the backing map once, in an order
  the runtime chooses, and \<^verbatim>\<open>v.isExpired()\<close> reads the clock anew at every entry. A run
  of the loop is therefore described by the list of the keys in the order of the visit,
  each with the reading of the clock at its test. An entry that is no longer in the map
  when its turn comes is not produced. \<open>ranges\<close> says that a run visits every key of
  the map once.
\<close>

type_synonym 'k run = "('k \<times> time) list"

definition ranges :: "'k run \<Rightarrow> ('k \<rightharpoonup> 'e) \<Rightarrow> bool" where
  "ranges rng mm = (distinct (map fst rng) \<and> fst ` set rng = dom mm)"

text \<open>
  \<^verbatim>\<open>var i int; for k, v := range m.m { if v.isExpired() { i++; delete(m.m, k) } }; return i\<close>.
  The counter never exceeds the number of entries, which Go itself holds in an
  \<^verbatim>\<open>int\<close>, so it is an integer without wrap-around.
\<close>

fun Purge_loop :: "'k run \<Rightarrow> ('k \<rightharpoonup> 'v mapEntry) \<Rightarrow> int \<Rightarrow> int \<times> ('k \<rightharpoonup> 'v mapEntry)" where
  "Purge_loop [] mm i = (i, mm)"
| "Purge_loop ((k, now) # rest) mm i =
     (case mm k of
        None \<Rightarrow> Purge_loop rest mm i
      | Some e \<Rightarrow>
          if isExpired now e then Purge_loop rest (mm(k := None)) (i + 1)
          else Purge_loop rest mm i)"

definition Purge :: "'k run \<Rightarrow> ('k, 'v) Map \<Rightarrow> int \<times> ('k, 'v) Map" where
  "Purge rng tm = (case Purge_loop rng (m tm) 0 of (i, mm) \<Rightarrow> (i, tm\<lparr>m := mm\<rparr>))"

text \<open>
  \<^verbatim>\<open>Dump\<close> returns a reference to a standard map \<^verbatim>\<open>map[K]V\<close> that it allocates. The
  standard maps of the program live in a store, addressed by their position;
  \<^verbatim>\<open>map[K]V{}\<close> allocates the next address, \<^verbatim>\<open>dumpm[k] = x\<close> and
  \<^verbatim>\<open>delete(dumpm, k)\<close> write through a reference.
\<close>

type_synonym addr = nat
type_synonym ('k, 'v) heap = "('k \<rightharpoonup> 'v) list"

definition heap_new :: "('k, 'v) heap \<Rightarrow> addr \<times> ('k, 'v) heap" where
  "heap_new h = (length h, h @ [Map.empty])"

definition heap_store :: "addr \<Rightarrow> 'k \<Rightarrow> 'v \<Rightarrow> ('k, 'v) heap \<Rightarrow> ('k, 'v) heap" where
  "heap_store a k x h = (if a < length h then h[a := (h ! a)(k \<mapsto> x)] else h)"

definition heap_delete :: "addr \<Rightarrow> 'k \<Rightarrow> ('k, 'v) heap \<Rightarrow> ('k, 'v) heap" where
  "heap_delete a k h = (if a < length h then h[a := (h ! a)(k := None)] else h)"

text \<open>
  \<^verbatim>\<open>for k, v := range m.m { if !v.isExpired() { dumpm[k] = v.v } }\<close>
\<close>

fun Dump_loop :: "'k run \<Rightarrow> ('k \<rightharpoonup> 'v mapEntry) \<Rightarrow> addr \<Rightarrow> ('k, 'v) heap \<Rightarrow> ('k, 'v) heap" where
  "Dump_loop [] mm dumpm h = h"
| "Dump_loop ((k, now) # rest) mm dumpm h =
     (case mm k of
        None \<Rightarrow> Dump_loop rest mm dumpm h
      | Some e \<Rightarrow>
          if \<not> isExpired now e then Dump_loop rest mm dumpm (heap_store dumpm k (v e) h)
          else Dump_loop rest mm dumpm h)"

definition Dump :: "'k run \<Rightarrow> ('k, 'v) Map \<Rightarrow> ('k, 'v) heap \<Rightarrow> addr \<times> ('k, 'v) Map \<times> ('k, 'v) heap" where
  "Dump rng tm h =
     (case heap_new h of (dumpm, h1) \<Rightarrow> (dumpm, tm, Dump_loop rng (m tm) dumpm h1))"

text \<open>
  The visits of a run that find an expired entry in a map: the visits at which the
  loop of \<^verbatim>\<open>Purge\<close> counts and deletes.
\<close>

definition purged :: "'k run \<Rightarrow> ('k \<rightharpoonup> 'v mapEntry) \<Rightarrow> 'k run" where
  "purged rng mm = filter (\<lambda>(k, t). case mm k of None \<Rightarrow> False | Some e \<Rightarrow> isExpired t e) rng"

subsection \<open>The state of one entry\<close>

text \<open>
  The three states of the entry of a key, as a reading of the clock sees them: no entry
  in the backing map, an entry that is not expired, an entry that is expired.
\<close>

datatype entry_state = Absent | Live | Expired

definition state_of :: "time \<Rightarrow> ('k, 'v) Map \<Rightarrow> 'k \<Rightarrow> entry_state" where
  "state_of now tm k =
     (case m tm k of None \<Rightarrow> Absent | Some e \<Rightarrow> if isExpired now e then Expired else Live)"

subsection \<open>A small map for the examples\<close>

text \<open>
  A map with a default expiration of 5, whose key 1 expires at 3 and whose key 2 expires
  at 20; at the clock reading 10 the first is expired and the second is live.
\<close>

abbreviation cache0 :: "(nat, string) Map" where
  "cache0 \<equiv> \<lparr>defaultExpiration = 5,
      m = [1 \<mapsto> \<lparr>expiresAt = 3, v = ''a''\<rparr>, 2 \<mapsto> \<lparr>expiresAt = 20, v = ''b''\<rparr>]\<rparr>"

section \<open>Get\<close>

text \<open>
  C1. \<open>Get\<close> answers \<open>(zero, False)\<close> for a key that is absent and for a key whose entry
  is expired at the reading of the clock, and \<open>(stored value, True)\<close> for every other
  key; whatever it answers, the map after the call is the map before it, so an expired
  entry stays in the backing map.
\<close>

theorem Get_result:
  "(m tm k = None \<longrightarrow> Get zero now tm k = ((zero, False), tm)) \<and>
   (\<forall>me. m tm k = Some me \<and> isExpired now me \<longrightarrow> Get zero now tm k = ((zero, False), tm)) \<and>
   (\<forall>me. m tm k = Some me \<and> \<not> isExpired now me \<longrightarrow> Get zero now tm k = ((v me, True), tm)) \<and>
   snd (Get zero now tm k) = tm \<and>
   m (snd (Get zero now tm k)) k = m tm k"
  by (simp add: Get_def split: option.split)

theorem Get_result_witness:
  "m cache0 3 = None \<and> Get '''' 10 cache0 3 = (('''', False), cache0) \<and>
   m cache0 1 = Some \<lparr>expiresAt = 3, v = ''a''\<rparr> \<and> isExpired 10 \<lparr>expiresAt = 3, v = ''a''\<rparr> \<and>
   Get '''' 10 cache0 1 = (('''', False), cache0) \<and>
   m cache0 2 = Some \<lparr>expiresAt = 20, v = ''b''\<rparr> \<and> \<not> isExpired 10 \<lparr>expiresAt = 20, v = ''b''\<rparr> \<and>
   Get '''' 10 cache0 2 = ((''b'', True), cache0)"
  using Get_result [where tm = cache0 and k = 3 and zero = "''''" and now = 10]
    Get_result [where tm = cache0 and k = 1 and zero = "''''" and now = 10]
    Get_result [where tm = cache0 and k = 2 and zero = "''''" and now = 10]
  by (simp add: isExpired_def After_def)

section \<open>Set\<close>

text \<open>
  C2. \<open>Set\<close> stores, for any map and whatever the key held before, the entry with the
  given value that expires at \<open>now + defaultExpiration\<close>. With a positive default
  expiration a \<open>Get\<close> at the same reading of the clock returns the value and \<open>True\<close>,
  and so does a \<open>Get\<close> at any later reading up to the expiration.
\<close>

theorem Set_then_Get:
  "m (Set now tm k x) k = Some \<lparr>expiresAt = Add now (defaultExpiration tm), v = x\<rparr> \<and>
   defaultExpiration (Set now tm k x) = defaultExpiration tm \<and>
   (0 < defaultExpiration tm \<longrightarrow>
      Get zero now (Set now tm k x) k = ((x, True), Set now tm k x)) \<and>
   (now \<le> now' \<and> now' \<le> Add now (defaultExpiration tm) \<longrightarrow>
      Get zero now' (Set now tm k x) k = ((x, True), Set now tm k x))"
  by (simp add: Set_def Get_def isExpired_def After_def Add_def)

theorem Set_then_Get_witness:
  "m (Set 10 cache0 2 ''c'') 2 = Some \<lparr>expiresAt = 15, v = ''c''\<rparr> \<and>
   0 < defaultExpiration cache0 \<and>
   Get '''' 10 (Set 10 cache0 2 ''c'') 2 = ((''c'', True), Set 10 cache0 2 ''c'') \<and>
   (10::int) \<le> 14 \<and> 14 \<le> Add 10 (defaultExpiration cache0) \<and>
   Get '''' 14 (Set 10 cache0 2 ''c'') 2 = ((''c'', True), Set 10 cache0 2 ''c'')"
  using Set_then_Get [where tm = cache0 and k = 2 and zero = "''''" and now = 10 and now' = 14
      and x = "''c''"]
  by (simp add: Add_def)

section \<open>Delete\<close>

text \<open>
  C4. \<open>Delete\<close> leaves the key absent whatever it held, and changes nothing when the
  key was absent. It returns \<open>True\<close> exactly when the key held an entry that was not
  expired. On an expired entry it returns \<open>False\<close> and the key is absent afterwards,
  and a second \<open>Delete\<close> of the key, at any reading of the clock, returns \<open>False\<close>.
\<close>

theorem Delete_result:
  "m (snd (Delete now tm k)) k = None \<and>
   defaultExpiration (snd (Delete now tm k)) = defaultExpiration tm \<and>
   (m tm k = None \<longrightarrow> Delete now tm k = (False, tm)) \<and>
   fst (Delete now tm k) = (\<exists>e. m tm k = Some e \<and> \<not> isExpired now e) \<and>
   (\<forall>e. m tm k = Some e \<and> isExpired now e \<longrightarrow>
      fst (Delete now tm k) = False \<and> m (snd (Delete now tm k)) k = None) \<and>
   fst (Delete now' (snd (Delete now tm k)) k) = False"
  by (auto simp add: Delete_def fun_upd_idem split: option.split)

theorem Delete_result_witness:
  "m cache0 3 = None \<and> Delete 10 cache0 3 = (False, cache0) \<and>
   m cache0 1 = Some \<lparr>expiresAt = 3, v = ''a''\<rparr> \<and> isExpired 10 \<lparr>expiresAt = 3, v = ''a''\<rparr> \<and>
   fst (Delete 10 cache0 1) = False \<and> m (snd (Delete 10 cache0 1)) 1 = None \<and>
   fst (Delete 11 (snd (Delete 10 cache0 1)) 1) = False \<and>
   fst (Delete 10 cache0 2) = True \<and> m (snd (Delete 10 cache0 2)) 2 = None"
  using Delete_result [where tm = cache0 and k = 3 and now = 10]
    Delete_result [where tm = cache0 and k = 1 and now = 10 and now' = 11]
    Delete_result [where tm = cache0 and k = 2 and now = 10]
  by (simp add: isExpired_def After_def)

section \<open>SetExpiration\<close>

text \<open>
  C5. On an absent key \<open>SetExpiration\<close> returns \<open>False\<close> and the map is the one
  before the call. On a present key, expired or not, it returns \<open>True\<close>, the entry
  keeps its value and expires at the given instant, and the default expiration is
  untouched; an instant before the reading of the clock makes the entry unreadable at
  once, an instant at or after it makes it readable.
\<close>

theorem SetExpiration_result:
  "(m tm k = None \<longrightarrow> SetExpiration tm k t = (False, tm)) \<and>
   (\<forall>e. m tm k = Some e \<longrightarrow>
      fst (SetExpiration tm k t) = True \<and>
      m (snd (SetExpiration tm k t)) k = Some \<lparr>expiresAt = t, v = v e\<rparr> \<and>
      defaultExpiration (snd (SetExpiration tm k t)) = defaultExpiration tm \<and>
      (t < now \<longrightarrow> fst (Get zero now (snd (SetExpiration tm k t)) k) = (zero, False)) \<and>
      (now \<le> t \<longrightarrow> fst (Get zero now (snd (SetExpiration tm k t)) k) = (v e, True)))"
  by (simp add: SetExpiration_def Get_def isExpired_def After_def)

theorem SetExpiration_result_witness:
  "m cache0 3 = None \<and> SetExpiration cache0 3 50 = (False, cache0) \<and>
   m cache0 2 = Some \<lparr>expiresAt = 20, v = ''b''\<rparr> \<and>
   fst (SetExpiration cache0 2 4) = True \<and>
   m (snd (SetExpiration cache0 2 4)) 2 = Some \<lparr>expiresAt = 4, v = ''b''\<rparr> \<and>
   (4::int) < 10 \<and> fst (Get '''' 10 (snd (SetExpiration cache0 2 4)) 2) = ('''', False) \<and>
   m cache0 1 = Some \<lparr>expiresAt = 3, v = ''a''\<rparr> \<and> isExpired 10 \<lparr>expiresAt = 3, v = ''a''\<rparr> \<and>
   fst (SetExpiration cache0 1 50) = True \<and>
   m (snd (SetExpiration cache0 1 50)) 1 = Some \<lparr>expiresAt = 50, v = ''a''\<rparr> \<and>
   (10::int) \<le> 50 \<and> fst (Get '''' 10 (snd (SetExpiration cache0 1 50)) 1) = (''a'', True)"
  using SetExpiration_result [where tm = cache0 and k = 3 and t = 50]
    SetExpiration_result [where tm = cache0 and k = 2 and t = 4 and now = 10 and zero = "''''"]
    SetExpiration_result [where tm = cache0 and k = 1 and t = 50 and now = 10 and zero = "''''"]
  by (simp add: isExpired_def After_def)

section \<open>Reset\<close>

text \<open>
  C7. \<open>Reset\<close> at the clock reading \<open>now\<close> is \<open>SetExpiration\<close> with the instant
  \<open>now + defaultExpiration\<close>: the same result and the same map, which is also
  how the earlier version of the package writes it. So it returns
  \<open>False\<close> and changes nothing on an absent key, and on a present key it returns
  \<open>True\<close>, keeps the value and moves the expiration to \<open>now + defaultExpiration\<close>.
\<close>

theorem Reset_is_SetExpiration:
  "Reset now tm k = SetExpiration tm k (Add now (defaultExpiration tm)) \<and>
   Reset now tm k = timerdb_Reset now tm k \<and>
   (m tm k = None \<longrightarrow> Reset now tm k = (False, tm)) \<and>
   (\<forall>e. m tm k = Some e \<longrightarrow>
      fst (Reset now tm k) = True \<and>
      m (snd (Reset now tm k)) k = Some \<lparr>expiresAt = now + defaultExpiration tm, v = v e\<rparr> \<and>
      defaultExpiration (snd (Reset now tm k)) = defaultExpiration tm)"
  by (simp add: Reset_def timerdb_Reset_def SetExpiration_def Add_def split: option.split)

theorem Reset_is_SetExpiration_witness:
  "Reset 10 cache0 1 = SetExpiration cache0 1 15 \<and>
   m cache0 3 = None \<and> Reset 10 cache0 3 = (False, cache0) \<and>
   m cache0 1 = Some \<lparr>expiresAt = 3, v = ''a''\<rparr> \<and>
   fst (Reset 10 cache0 1) = True \<and>
   m (snd (Reset 10 cache0 1)) 1 = Some \<lparr>expiresAt = 15, v = ''a''\<rparr>"
  using Reset_is_SetExpiration [where tm = cache0 and k = 1 and now = 10]
    Reset_is_SetExpiration [where tm = cache0 and k = 3 and now = 10]
  by (simp add: Add_def SetExpiration_def timerdb_Reset_def)

section \<open>The other keys\<close>

text \<open>
  C10. \<open>Set\<close>, \<open>Delete\<close>, \<open>SetExpiration\<close> and \<open>Reset\<close> on a key \<open>k\<close> leave what
  the backing map holds for any other key \<open>k'\<close> as it was: absent stays absent, and an
  entry keeps its value and its expiration.
\<close>

theorem other_key_unchanged:
  "k \<noteq> k' \<Longrightarrow>
   m (Set now tm k x) k' = m tm k' \<and>
   m (snd (Delete now tm k)) k' = m tm k' \<and>
   m (snd (SetExpiration tm k t)) k' = m tm k' \<and>
   m (snd (Reset now tm k)) k' = m tm k'"
  by (simp add: Set_def Delete_def SetExpiration_def Reset_def split: option.split)

theorem other_key_unchanged_witness:
  "(1::nat) \<noteq> 2 \<and>
   m (Set 10 cache0 1 ''c'') 2 = Some \<lparr>expiresAt = 20, v = ''b''\<rparr> \<and>
   m (snd (Delete 10 cache0 1)) 2 = Some \<lparr>expiresAt = 20, v = ''b''\<rparr> \<and>
   m (snd (SetExpiration cache0 1 50)) 2 = Some \<lparr>expiresAt = 20, v = ''b''\<rparr> \<and>
   m (snd (Reset 10 cache0 1)) 2 = Some \<lparr>expiresAt = 20, v = ''b''\<rparr> \<and>
   m (Set 10 cache0 1 ''c'') 3 = None \<and>
   m (snd (Delete 10 cache0 1)) 3 = None \<and>
   m (snd (SetExpiration cache0 1 50)) 3 = None \<and>
   m (snd (Reset 10 cache0 1)) 3 = None"
  using other_key_unchanged [where tm = cache0 and k = 1 and k' = 2 and now = 10 and t = 50
      and x = "''c''"]
    other_key_unchanged [where tm = cache0 and k = 1 and k' = 3 and now = 10 and t = 50
      and x = "''c''"]
  by simp

section \<open>A default expiration that is not positive\<close>

text \<open>
  C8, as stated, fails for the default expiration zero: the entry that \<open>Set\<close> creates
  at the clock reading 100 expires at 100, the reading 100 is not after it, and \<open>Get\<close>
  at that reading finds the value.
\<close>

theorem zero_ttl_live_at_creation:
  "Get (0::int) 100 (Set 100 (New 0) (1::nat) 7) 1 = ((7, True), Set 100 (New 0) 1 7) \<and>
   \<not> isExpired 100 \<lparr>expiresAt = Add 100 0, v = 7::int\<rparr>"
  by (simp add: Get_def Set_def New_def isExpired_def After_def Add_def)

text \<open>
  C8, amended. An entry is expired exactly when the reading of the clock is strictly
  after its expiration, and \<open>New\<close> accepts any duration and stores it. With a negative
  default expiration the entry that \<open>Set\<close> creates is expired at the reading of its
  creation and at every later one. With the default expiration zero it is readable at
  the reading of its creation and expired at every strictly later one.
\<close>

theorem nonpositive_ttl:
  "isExpired now e = (expiresAt e < now) \<and>
   New d = \<lparr>defaultExpiration = d, m = Map.empty\<rparr> \<and>
   (defaultExpiration tm < 0 \<and> now \<le> now' \<longrightarrow>
      Get zero now' (Set now tm k x) k = ((zero, False), Set now tm k x)) \<and>
   (defaultExpiration tm = 0 \<longrightarrow>
      Get zero now (Set now tm k x) k = ((x, True), Set now tm k x) \<and>
      (now < now' \<longrightarrow> Get zero now' (Set now tm k x) k = ((zero, False), Set now tm k x)))"
  by (simp add: Get_def Set_def New_def isExpired_def After_def Add_def)

theorem nonpositive_ttl_witness:
  "\<not> isExpired 100 \<lparr>expiresAt = 100, v = 7::int\<rparr> \<and>
   defaultExpiration (New (- 5) :: (nat, int) Map) < 0 \<and> (100::int) \<le> 100 \<and>
   Get 0 100 (Set 100 (New (- 5)) (1::nat) (7::int)) 1 = ((0, False), Set 100 (New (- 5)) 1 7) \<and>
   defaultExpiration (New 0 :: (nat, int) Map) = 0 \<and>
   Get 0 100 (Set 100 (New 0) (1::nat) (7::int)) 1 = ((7, True), Set 100 (New 0) 1 7) \<and>
   (100::int) < 101 \<and>
   Get 0 101 (Set 100 (New 0) (1::nat) (7::int)) 1 = ((0, False), Set 100 (New 0) 1 7)"
  using nonpositive_ttl [where tm = "New (- 5) :: (nat, int) Map" and now = 100 and now' = 100
      and k = 1 and x = 7 and zero = 0 and d = 0 and e = "\<lparr>expiresAt = 100, v = 7::int\<rparr>"]
    nonpositive_ttl [where tm = "New 0 :: (nat, int) Map" and now = 100 and now' = 101
      and k = 1 and x = 7 and zero = 0 and d = 0 and e = "\<lparr>expiresAt = 100, v = 7::int\<rparr>"]
  by (simp add: New_def)

section \<open>Purge\<close>

lemma purged_Cons:
  "purged ((k, t) # rest) mm =
     (if (case mm k of None \<Rightarrow> False | Some e \<Rightarrow> isExpired t e) then (k, t) # purged rest mm
      else purged rest mm)"
  by (simp add: purged_def)

lemma purged_Nil: "purged [] mm = []"
  by (simp add: purged_def)

lemma purged_fun_upd:
  assumes "k \<notin> fst ` set rest"
  shows "purged rest (mm(k := y)) = purged rest mm"
proof -
  have "\<And>p. p \<in> set rest \<Longrightarrow> fst p \<noteq> k"
    using assms by blast
  then show ?thesis
    unfolding purged_def by (intro filter_cong refl) (simp add: case_prod_unfold)
qed

lemma Purge_loop_count:
  "distinct (map fst rng) \<Longrightarrow>
   fst (Purge_loop rng mm i) = i + int (length (purged rng mm))"
proof (induction rng arbitrary: mm i)
  case Nil
  show ?case by (simp add: purged_Nil)
next
  case (Cons p rest)
  obtain k t where p: "p = (k, t)" by (cases p)
  from Cons.prems p have k: "k \<notin> fst ` set rest" and d: "distinct (map fst rest)"
    by auto
  show ?case
  proof (cases "mm k")
    case None
    then show ?thesis using Cons.IH [OF d] p by (simp add: purged_Cons)
  next
    case (Some e)
    show ?thesis
    proof (cases "isExpired t e")
      case True
      have "fst (Purge_loop (p # rest) mm i) = fst (Purge_loop rest (mm(k := None)) (i + 1))"
        using p Some True by simp
      also have "\<dots> = i + 1 + int (length (purged rest (mm(k := None))))"
        by (rule Cons.IH [OF d])
      also have "purged rest (mm(k := None)) = purged rest mm"
        by (rule purged_fun_upd [OF k])
      finally show ?thesis
        using p Some True by (simp add: purged_Cons)
    next
      case False
      then show ?thesis
        using Cons.IH [OF d, of mm i] p Some by (simp add: purged_Cons)
    qed
  qed
qed

lemma Purge_loop_map:
  "distinct (map fst rng) \<Longrightarrow>
   snd (Purge_loop rng mm i) k =
     (case map_of rng k of
        None \<Rightarrow> mm k
      | Some t \<Rightarrow> (case mm k of None \<Rightarrow> None | Some e \<Rightarrow> if isExpired t e then None else Some e))"
proof (induction rng arbitrary: mm i)
  case Nil
  show ?case by simp
next
  case (Cons p rest)
  obtain k0 t0 where p: "p = (k0, t0)" by (cases p)
  from Cons.prems p have k0: "k0 \<notin> fst ` set rest" and d: "distinct (map fst rest)"
    by auto
  from k0 have none: "map_of rest k0 = None"
    by (simp add: map_of_eq_None_iff)
  define mm' where "mm' = mm(k0 := None)"
  have at: "mm' k0 = None" and off: "\<And>j. j \<noteq> k0 \<Longrightarrow> mm' j = mm j"
    by (simp_all add: mm'_def)
  have kept: "snd (Purge_loop rest mm i) k =
      (case map_of rest k of
         None \<Rightarrow> mm k
       | Some t \<Rightarrow> (case mm k of None \<Rightarrow> None | Some e \<Rightarrow> if isExpired t e then None else Some e))"
    by (rule Cons.IH [OF d])
  have dropped: "snd (Purge_loop rest mm' (i + 1)) k =
      (case map_of rest k of
         None \<Rightarrow> mm' k
       | Some t \<Rightarrow> (case mm' k of None \<Rightarrow> None | Some e \<Rightarrow> if isExpired t e then None else Some e))"
    by (rule Cons.IH [OF d])
  show ?case
  proof (cases "mm k0")
    case None
    then have "Purge_loop (p # rest) mm i = Purge_loop rest mm i"
      using p by simp
    then show ?thesis
      using kept p none None by (auto split: option.split)
  next
    case (Some e)
    show ?thesis
    proof (cases "isExpired t0 e")
      case True
      then have step: "Purge_loop (p # rest) mm i = Purge_loop rest mm' (i + 1)"
        using p Some by (simp add: mm'_def)
      show ?thesis
      proof (cases "k = k0")
        case True
        then show ?thesis
          using step dropped none at p Some \<open>isExpired t0 e\<close> by simp
      next
        case False
        then show ?thesis
          using step dropped off [OF False] p by (simp split: option.split)
      qed
    next
      case False
      then have "Purge_loop (p # rest) mm i = Purge_loop rest mm i"
        using p Some by simp
      then show ?thesis
        using kept p none Some False by (auto split: option.split)
    qed
  qed
qed

lemma Purge_loop_idle:
  "\<forall>(k, t) \<in> set rng. \<forall>e. mm k = Some e \<longrightarrow> \<not> isExpired t e \<Longrightarrow>
   Purge_loop rng mm i = (i, mm)"
  by (induction rng arbitrary: mm i) (auto split: option.split)

lemma map_of_same_reading:
  "\<forall>(k, t) \<in> set rng. t = now \<Longrightarrow>
   map_of rng k = (if k \<in> fst ` set rng then Some now else None)"
  by (induction rng) auto

lemma purged_card:
  assumes "distinct (map fst rng)" and "fst ` set rng = dom mm"
    and "\<forall>(k, t) \<in> set rng. t = now"
  shows "length (purged rng mm) = card {k. \<exists>e. mm k = Some e \<and> isExpired now e}"
proof -
  have d: "distinct (map fst (purged rng mm))"
    unfolding purged_def using assms(1) by (rule distinct_map_filter)
  have "set (map fst (purged rng mm)) = {k. \<exists>e. mm k = Some e \<and> isExpired now e}"
  proof (rule set_eqI)
    fix k
    show "k \<in> set (map fst (purged rng mm)) \<longleftrightarrow> k \<in> {k. \<exists>e. mm k = Some e \<and> isExpired now e}"
    proof
      assume "k \<in> set (map fst (purged rng mm))"
      then obtain t where "(k, t) \<in> set rng"
        and "case mm k of None \<Rightarrow> False | Some e \<Rightarrow> isExpired t e"
        by (auto simp: purged_def)
      with assms(3) show "k \<in> {k. \<exists>e. mm k = Some e \<and> isExpired now e}"
        by (auto split: option.splits)
    next
      assume "k \<in> {k. \<exists>e. mm k = Some e \<and> isExpired now e}"
      then obtain e where e: "mm k = Some e" "isExpired now e" by auto
      then have "k \<in> fst ` set rng" using assms(2) by auto
      then obtain t where t: "(k, t) \<in> set rng" by auto
      with assms(3) have "t = now" by auto
      with t e have "(k, t) \<in> set (purged rng mm)" by (simp add: purged_def)
      then show "k \<in> set (map fst (purged rng mm))" by force
    qed
  qed
  then have "card {k. \<exists>e. mm k = Some e \<and> isExpired now e} = length (map fst (purged rng mm))"
    using distinct_card [OF d] by simp
  then show ?thesis by simp
qed


lemma Purge_unfold:
  "fst (Purge rng tm) = fst (Purge_loop rng (m tm) 0) \<and>
   m (snd (Purge rng tm)) = snd (Purge_loop rng (m tm) 0) \<and>
   defaultExpiration (snd (Purge rng tm)) = defaultExpiration tm"
  by (simp add: Purge_def split: prod.split)

lemma Purge_idle:
  assumes "\<forall>(k, t) \<in> set rng. \<forall>e. m tm k = Some e \<longrightarrow> \<not> isExpired t e"
  shows "Purge rng tm = (0, tm)"
  using Purge_loop_idle [OF assms, of 0] by (simp add: Purge_def)

lemma Purge_same_reading:
  assumes rng: "ranges rng (m tm)" and same: "\<forall>(k, t) \<in> set rng. t = now"
  shows "m (snd (Purge rng tm)) k =
      (case m tm k of None \<Rightarrow> None | Some e \<Rightarrow> if isExpired now e then None else Some e)"
proof -
  from rng have d: "distinct (map fst rng)" and keys: "fst ` set rng = dom (m tm)"
    by (simp_all add: ranges_def)
  show ?thesis
  proof (cases "m tm k")
    case None
    then have "k \<notin> fst ` set rng" using keys by auto
    then have "map_of rng k = None" by (simp add: map_of_eq_None_iff)
    then show ?thesis
      using Purge_loop_map [OF d, of "m tm" 0 k] None by (simp add: Purge_unfold)
  next
    case (Some e)
    then have "k \<in> fst ` set rng" using keys by auto
    then have "map_of rng k = Some now" using map_of_same_reading [OF same, of k] by simp
    then show ?thesis
      using Purge_loop_map [OF d, of "m tm" 0 k] Some by (simp add: Purge_unfold)
  qed
qed

lemma Purge_between:
  assumes rng: "ranges rng (m tm)" and span: "\<forall>(k, t) \<in> set rng. t0 \<le> t \<and> t \<le> t1"
  shows "(\<forall>k e. m tm k = Some e \<and> isExpired t0 e \<longrightarrow> m (snd (Purge rng tm)) k = None) \<and>
         (\<forall>k e. m tm k = Some e \<and> \<not> isExpired t1 e \<longrightarrow> m (snd (Purge rng tm)) k = Some e) \<and>
         (\<forall>k. m tm k = None \<longrightarrow> m (snd (Purge rng tm)) k = None)"
proof -
  from rng have d: "distinct (map fst rng)" and keys: "fst ` set rng = dom (m tm)"
    by (simp_all add: ranges_def)
  have seen: "\<exists>t. map_of rng k = Some t \<and> t0 \<le> t \<and> t \<le> t1" if "m tm k = Some e" for k e
  proof -
    from that keys have "k \<in> fst ` set rng" by auto
    then obtain t where "map_of rng k = Some t"
      by (cases "map_of rng k") (auto simp: map_of_eq_None_iff)
    moreover from this have "(k, t) \<in> set rng" by (rule map_of_SomeD)
    ultimately show ?thesis using span by auto
  qed
  have unseen: "map_of rng k = None" if "m tm k = None" for k
    using that keys by (auto simp: map_of_eq_None_iff)
  show ?thesis
  proof (intro conjI allI impI)
    fix k e
    assume a: "m tm k = Some e \<and> isExpired t0 e"
    with seen obtain t where "map_of rng k = Some t" "t0 \<le> t" by blast
    with a show "m (snd (Purge rng tm)) k = None"
      using Purge_loop_map [OF d, of "m tm" 0 k]
      by (simp add: Purge_unfold isExpired_def After_def)
  next
    fix k e
    assume a: "m tm k = Some e \<and> \<not> isExpired t1 e"
    with seen obtain t where "map_of rng k = Some t" "t \<le> t1" by blast
    with a show "m (snd (Purge rng tm)) k = Some e"
      using Purge_loop_map [OF d, of "m tm" 0 k]
      by (simp add: Purge_unfold isExpired_def After_def)
  next
    fix k
    assume "m tm k = None"
    then show "m (snd (Purge rng tm)) k = None"
      using Purge_loop_map [OF d, of "m tm" 0 k] unseen [of k]
      by (simp add: Purge_unfold)
  qed
qed

lemma Purge_at_reading:
  assumes rng: "ranges rng (m tm)" and visit: "(k, t) \<in> set rng"
  shows "m (snd (Purge rng tm)) k =
      (case m tm k of None \<Rightarrow> None | Some e \<Rightarrow> if isExpired t e then None else Some e)"
proof -
  from rng have d: "distinct (map fst rng)"
    by (simp add: ranges_def)
  from visit have "map_of rng k = Some t"
    by (simp add: map_of_eq_Some_iff [OF d])
  then show ?thesis
    using Purge_loop_map [OF d, of "m tm" 0 k] by (simp add: Purge_unfold)
qed

lemma Purge_absent:
  assumes rng: "ranges rng (m tm)" and absent: "m tm k = None"
  shows "m (snd (Purge rng tm)) k = None"
proof -
  from rng have d: "distinct (map fst rng)"
    by (simp add: ranges_def)
  show ?thesis
    using Purge_loop_map [OF d, of "m tm" 0 k] absent
    by (simp add: Purge_unfold split: option.split)
qed

lemma Purge_count:
  assumes rng: "ranges rng (m tm)"
  shows "fst (Purge rng tm) = int (card (dom (m tm) - dom (m (snd (Purge rng tm)))))"
proof -
  let ?after = "snd (Purge rng tm)"
  from rng have d: "distinct (map fst rng)" and keys: "fst ` set rng = dom (m tm)"
    by (simp_all add: ranges_def)
  have dp: "distinct (map fst (purged rng (m tm)))"
    unfolding purged_def using d by (rule distinct_map_filter)
  have "set (map fst (purged rng (m tm))) = dom (m tm) - dom (m ?after)"
  proof (rule set_eqI)
    fix k
    show "k \<in> set (map fst (purged rng (m tm))) \<longleftrightarrow> k \<in> dom (m tm) - dom (m ?after)"
    proof
      assume "k \<in> set (map fst (purged rng (m tm)))"
      then obtain t where visit: "(k, t) \<in> set rng"
        and found: "case m tm k of None \<Rightarrow> False | Some e \<Rightarrow> isExpired t e"
        by (auto simp: purged_def)
      from found obtain e where e: "m tm k = Some e" "isExpired t e"
        by (cases "m tm k") auto
      with Purge_at_reading [OF rng visit] have "m ?after k = None" by simp
      with e show "k \<in> dom (m tm) - dom (m ?after)" by auto
    next
      assume "k \<in> dom (m tm) - dom (m ?after)"
      then obtain e where e: "m tm k = Some e" and gone: "m ?after k = None" by auto
      from e keys have "k \<in> fst ` set rng" by auto
      then obtain t where visit: "(k, t) \<in> set rng" by auto
      from Purge_at_reading [OF rng visit] e gone have "isExpired t e"
        by (simp split: if_splits)
      with visit e have "(k, t) \<in> set (purged rng (m tm))" by (simp add: purged_def)
      then show "k \<in> set (map fst (purged rng (m tm)))" by force
    qed
  qed
  then have "card (dom (m tm) - dom (m ?after)) = length (map fst (purged rng (m tm)))"
    using distinct_card [OF dp] by simp
  then show ?thesis
    using Purge_loop_count [OF d, of "m tm" 0] by (simp add: Purge_unfold)
qed

text \<open>
  C3. A \<open>Purge\<close> visits every key once and tests each entry at the reading of the
  clock of its visit. It removes exactly the entries that are expired at that reading
  and leaves every other entry as it was; nothing else changes. The result is the
  number of entries removed, the number by which the backing map has shrunk. When the
  readings of the call lie between \<open>t0\<close> and \<open>t1\<close>, every entry expired at
  \<open>t0\<close> is removed and every entry not expired at \<open>t1\<close> is kept; when the call
  is one instant \<open>now\<close>, the entries removed are exactly those expired at \<open>now\<close>
  and the result is their number. A second \<open>Purge\<close>, at readings at which no
  remaining entry is expired, returns 0 and changes nothing.
\<close>

theorem Purge_exact:
  assumes rng: "ranges rng (m tm)"
  shows "(\<forall>(k, t) \<in> set rng. m (snd (Purge rng tm)) k =
            (case m tm k of
               None \<Rightarrow> None
             | Some e \<Rightarrow> if isExpired t e then None else Some e)) \<and>
         (\<forall>k. m tm k = None \<longrightarrow> m (snd (Purge rng tm)) k = None) \<and>
         defaultExpiration (snd (Purge rng tm)) = defaultExpiration tm \<and>
         fst (Purge rng tm) = int (card (dom (m tm) - dom (m (snd (Purge rng tm))))) \<and>
         fst (Purge rng tm) =
           int (card (dom (m tm))) - int (card (dom (m (snd (Purge rng tm))))) \<and>
         (\<forall>t0 t1. (\<forall>(k, t) \<in> set rng. t0 \<le> t \<and> t \<le> t1) \<longrightarrow>
            (\<forall>k e. m tm k = Some e \<and> isExpired t0 e \<longrightarrow> m (snd (Purge rng tm)) k = None) \<and>
            (\<forall>k e. m tm k = Some e \<and> \<not> isExpired t1 e \<longrightarrow>
               m (snd (Purge rng tm)) k = Some e)) \<and>
         (\<forall>now. (\<forall>(k, t) \<in> set rng. t = now) \<longrightarrow>
            (\<forall>k. m (snd (Purge rng tm)) k =
               (case m tm k of
                  None \<Rightarrow> None
                | Some e \<Rightarrow> if isExpired now e then None else Some e)) \<and>
            fst (Purge rng tm) = int (card {k. \<exists>e. m tm k = Some e \<and> isExpired now e})) \<and>
         (\<forall>rng2.
            (\<forall>(k, t) \<in> set rng2. \<forall>e. m (snd (Purge rng tm)) k = Some e \<longrightarrow> \<not> isExpired t e) \<longrightarrow>
            Purge rng2 (snd (Purge rng tm)) = (0, snd (Purge rng tm)))"
proof -
  let ?after = "snd (Purge rng tm)"
  from rng have d: "distinct (map fst rng)" and keys: "fst ` set rng = dom (m tm)"
    by (simp_all add: ranges_def)
  have each: "\<forall>(k, t) \<in> set rng. m ?after k =
      (case m tm k of None \<Rightarrow> None | Some e \<Rightarrow> if isExpired t e then None else Some e)"
    using Purge_at_reading [OF rng] by blast
  have absent: "\<forall>k. m tm k = None \<longrightarrow> m ?after k = None"
    using Purge_absent [OF rng] by blast
  have ttl: "defaultExpiration ?after = defaultExpiration tm"
    by (simp add: Purge_unfold)
  have count: "fst (Purge rng tm) = int (card (dom (m tm) - dom (m ?after)))"
    by (rule Purge_count [OF rng])
  have fin: "finite (dom (m tm))"
    using keys [symmetric] by simp
  have sub: "dom (m ?after) \<subseteq> dom (m tm)"
    using absent by (auto simp: dom_def)
  have "card (dom (m tm) - dom (m ?after)) = card (dom (m tm)) - card (dom (m ?after))"
    using card_Diff_subset [OF finite_subset [OF sub fin] sub] by simp
  moreover have "card (dom (m ?after)) \<le> card (dom (m tm))"
    by (rule card_mono [OF fin sub])
  ultimately have shrunk:
    "fst (Purge rng tm) = int (card (dom (m tm))) - int (card (dom (m ?after)))"
    using count by simp
  have between: "(\<forall>k e. m tm k = Some e \<and> isExpired t0 e \<longrightarrow> m ?after k = None) \<and>
      (\<forall>k e. m tm k = Some e \<and> \<not> isExpired t1 e \<longrightarrow> m ?after k = Some e)"
    if "\<forall>(k, t) \<in> set rng. t0 \<le> t \<and> t \<le> t1" for t0 t1
    using Purge_between [OF rng that] by blast
  have instant: "(\<forall>k. m ?after k =
        (case m tm k of None \<Rightarrow> None | Some e \<Rightarrow> if isExpired now e then None else Some e)) \<and>
      fst (Purge rng tm) = int (card {k. \<exists>e. m tm k = Some e \<and> isExpired now e})"
    if same: "\<forall>(k, t) \<in> set rng. t = now" for now
  proof
    show "\<forall>k. m ?after k =
        (case m tm k of None \<Rightarrow> None | Some e \<Rightarrow> if isExpired now e then None else Some e)"
      using Purge_same_reading [OF rng same] by blast
    show "fst (Purge rng tm) = int (card {k. \<exists>e. m tm k = Some e \<and> isExpired now e})"
      using Purge_loop_count [OF d, of "m tm" 0] purged_card [OF d keys same]
      by (simp add: Purge_unfold)
  qed
  have again: "Purge rng2 ?after = (0, ?after)"
    if "\<forall>(k, t) \<in> set rng2. \<forall>e. m ?after k = Some e \<longrightarrow> \<not> isExpired t e" for rng2
    using that by (rule Purge_idle)
  show ?thesis
    using each absent ttl count shrunk between instant again by blast
qed

theorem Purge_exact_witness:
  "ranges [(2, 10), (1, 12)] (m cache0) \<and>
   fst (Purge [(2, 10), (1, 12)] cache0) = 1 \<and>
   m (snd (Purge [(2, 10), (1, 12)] cache0)) 1 = None \<and>
   m (snd (Purge [(2, 10), (1, 12)] cache0)) 2 = Some \<lparr>expiresAt = 20, v = ''b''\<rparr> \<and>
   m (snd (Purge [(2, 10), (1, 12)] cache0)) 3 = None \<and>
   defaultExpiration (snd (Purge [(2, 10), (1, 12)] cache0)) = 5 \<and>
   Purge [(2, 15)] (snd (Purge [(2, 10), (1, 12)] cache0)) =
     (0, snd (Purge [(2, 10), (1, 12)] cache0)) \<and>
   ranges [(1, 10), (2, 25)] (m cache0) \<and>
   fst (Purge [(1, 10), (2, 25)] cache0) = 2 \<and>
   m (snd (Purge [(1, 10), (2, 25)] cache0)) 1 = None \<and>
   m (snd (Purge [(1, 10), (2, 25)] cache0)) 2 = None \<and>
   ranges [(2, 10), (1, 10)] (m cache0) \<and>
   m (snd (Purge [(2, 10), (1, 10)] cache0)) 1 = None \<and>
   m (snd (Purge [(2, 10), (1, 10)] cache0)) 2 = Some \<lparr>expiresAt = 20, v = ''b''\<rparr>"
proof -
  let ?a = "[(2, 10), (1, 12)] :: nat run"
  let ?b = "[(1, 10), (2, 25)] :: nat run"
  let ?c = "[(2, 10), (1, 10)] :: nat run"
  have ra: "ranges ?a (m cache0)" and rb: "ranges ?b (m cache0)" and rc: "ranges ?c (m cache0)"
    by (simp_all add: ranges_def insert_commute)
  note A = Purge_exact [OF ra]
  note B = Purge_exact [OF rb]
  note C = Purge_exact [OF rc]
  from A have a_each: "\<forall>(k, t) \<in> set ?a. m (snd (Purge ?a cache0)) k =
      (case m cache0 k of None \<Rightarrow> None | Some e \<Rightarrow> if isExpired t e then None else Some e)"
    and a_absent: "\<forall>k. m cache0 k = None \<longrightarrow> m (snd (Purge ?a cache0)) k = None"
    and a_ttl: "defaultExpiration (snd (Purge ?a cache0)) = defaultExpiration cache0"
    and a_again: "\<forall>rng2.
      (\<forall>(k, t) \<in> set rng2. \<forall>e. m (snd (Purge ?a cache0)) k = Some e \<longrightarrow> \<not> isExpired t e) \<longrightarrow>
      Purge rng2 (snd (Purge ?a cache0)) = (0, snd (Purge ?a cache0))"
    by blast+
  have a1: "m (snd (Purge ?a cache0)) 1 = None"
    and a2: "m (snd (Purge ?a cache0)) 2 = Some \<lparr>expiresAt = 20, v = ''b''\<rparr>"
    using a_each by (simp_all add: isExpired_def After_def)
  have a3: "m (snd (Purge ?a cache0)) 3 = None"
    using a_absent [THEN spec, of 3] by simp
  have a5: "defaultExpiration (snd (Purge ?a cache0)) = 5"
    using a_ttl by simp
  have "\<forall>(k, t) \<in> set [(2::nat, 15::int)].
      \<forall>e. m (snd (Purge ?a cache0)) k = Some e \<longrightarrow> \<not> isExpired t e"
    using a2 by (simp add: isExpired_def After_def)
  with a_again have a6: "Purge [(2, 15)] (snd (Purge ?a cache0)) = (0, snd (Purge ?a cache0))"
    by blast
  have a0: "fst (Purge ?a cache0) = 1"
    by (simp add: Purge_def isExpired_def After_def)
  from B have b_each: "\<forall>(k, t) \<in> set ?b. m (snd (Purge ?b cache0)) k =
      (case m cache0 k of None \<Rightarrow> None | Some e \<Rightarrow> if isExpired t e then None else Some e)"
    by blast
  have b1: "m (snd (Purge ?b cache0)) 1 = None" and b2: "m (snd (Purge ?b cache0)) 2 = None"
    using b_each by (simp_all add: isExpired_def After_def)
  have b0: "fst (Purge ?b cache0) = 2"
    by (simp add: Purge_def isExpired_def After_def)
  have same: "\<forall>(k, t) \<in> set ?c. t = 10"
    by simp
  from C same have c_all: "\<forall>k. m (snd (Purge ?c cache0)) k =
      (case m cache0 k of None \<Rightarrow> None | Some e \<Rightarrow> if isExpired 10 e then None else Some e)"
    by blast
  have c1: "m (snd (Purge ?c cache0)) 1 = None"
    and c2: "m (snd (Purge ?c cache0)) 2 = Some \<lparr>expiresAt = 20, v = ''b''\<rparr>"
    using c_all [THEN spec, of 1] c_all [THEN spec, of 2]
    by (simp_all add: isExpired_def After_def)
  show ?thesis
    using ra rb rc a0 a1 a2 a3 a5 a6 b0 b1 b2 c1 c2 by blast
qed

section \<open>Dump\<close>

lemma heap_store_length: "length (heap_store a k x h) = length h"
  by (simp add: heap_store_def)

lemma heap_store_other: "b \<noteq> a \<Longrightarrow> heap_store a k x h ! b = h ! b"
  by (simp add: heap_store_def)

lemma heap_store_at: "a < length h \<Longrightarrow> heap_store a k x h ! a = (h ! a)(k \<mapsto> x)"
  by (simp add: heap_store_def)

lemma heap_delete_other: "b \<noteq> a \<Longrightarrow> heap_delete a k h ! b = h ! b"
  by (simp add: heap_delete_def)

lemma Dump_loop_length: "length (Dump_loop rng mm a h) = length h"
  by (induction rng arbitrary: h) (auto simp: heap_store_length split: option.split)

lemma Dump_loop_other: "b \<noteq> a \<Longrightarrow> Dump_loop rng mm a h ! b = h ! b"
  by (induction rng arbitrary: h) (auto simp: heap_store_other split: option.split)

lemma Dump_loop_at:
  "a < length h \<Longrightarrow> distinct (map fst rng) \<Longrightarrow>
   (Dump_loop rng mm a h ! a) k =
     (case map_of rng k of
        None \<Rightarrow> (h ! a) k
      | Some t \<Rightarrow>
          (case mm k of
             None \<Rightarrow> (h ! a) k
           | Some e \<Rightarrow> if isExpired t e then (h ! a) k else Some (v e)))"
proof (induction rng arbitrary: h)
  case Nil
  show ?case by simp
next
  case (Cons p rest)
  obtain k0 t0 where p: "p = (k0, t0)" by (cases p)
  from Cons.prems p have k0: "k0 \<notin> fst ` set rest" and d: "distinct (map fst rest)"
    by auto
  from k0 have none: "map_of rest k0 = None"
    by (simp add: map_of_eq_None_iff)
  show ?case
  proof (cases "mm k0")
    case None
    then show ?thesis
      using Cons.IH [OF Cons.prems(1) d] p none by (auto split: option.split)
  next
    case (Some e)
    show ?thesis
    proof (cases "isExpired t0 e")
      case True
      then show ?thesis
        using Cons.IH [OF Cons.prems(1) d] p none Some by (auto split: option.split)
    next
      case False
      define h1 where "h1 = heap_store a k0 (v e) h"
      have len: "a < length h1"
        using Cons.prems(1) by (simp add: h1_def heap_store_length)
      have cell: "h1 ! a = (h ! a)(k0 \<mapsto> v e)"
        using Cons.prems(1) by (simp add: h1_def heap_store_at)
      have step: "Dump_loop (p # rest) mm a h = Dump_loop rest mm a h1"
        using p Some False by (simp add: h1_def)
      show ?thesis
        using Cons.IH [OF len d] step cell p none Some False
        by (auto split: option.split)
    qed
  qed
qed

lemma Dump_unfold:
  "Dump rng tm h = (length h, tm, Dump_loop rng (m tm) (length h) (h @ [Map.empty]))"
  by (simp add: Dump_def heap_new_def)

lemma Dump_between:
  assumes rng: "ranges rng (m tm)" and span: "\<forall>(k, t) \<in> set rng. t0 \<le> t \<and> t \<le> t1"
  shows "(\<forall>k e. m tm k = Some e \<and> isExpired t0 e \<longrightarrow>
            (snd (snd (Dump rng tm h)) ! fst (Dump rng tm h)) k = None) \<and>
         (\<forall>k e. m tm k = Some e \<and> \<not> isExpired t1 e \<longrightarrow>
            (snd (snd (Dump rng tm h)) ! fst (Dump rng tm h)) k = Some (v e)) \<and>
         (\<forall>k. m tm k = None \<longrightarrow>
            (snd (snd (Dump rng tm h)) ! fst (Dump rng tm h)) k = None)"
proof -
  from rng have d: "distinct (map fst rng)" and keys: "fst ` set rng = dom (m tm)"
    by (simp_all add: ranges_def)
  have "length h < length (h @ [Map.empty])" by simp
  from Dump_loop_at [OF this d, of "m tm"]
  have at: "(snd (snd (Dump rng tm h)) ! fst (Dump rng tm h)) k =
      (case map_of rng k of
         None \<Rightarrow> None
       | Some t \<Rightarrow>
           (case m tm k of None \<Rightarrow> None | Some e \<Rightarrow> if isExpired t e then None else Some (v e)))"
    for k
    by (simp add: Dump_unfold split: option.split)
  have seen: "\<exists>t. map_of rng k = Some t \<and> t0 \<le> t \<and> t \<le> t1" if "m tm k = Some e" for k e
  proof -
    from that keys have "k \<in> fst ` set rng" by auto
    then obtain t where "map_of rng k = Some t"
      by (cases "map_of rng k") (auto simp: map_of_eq_None_iff)
    moreover from this have "(k, t) \<in> set rng" by (rule map_of_SomeD)
    ultimately show ?thesis using span by auto
  qed
  show ?thesis
  proof (intro conjI allI impI)
    fix k e
    assume a: "m tm k = Some e \<and> isExpired t0 e"
    with seen obtain t where "map_of rng k = Some t" "t0 \<le> t" by blast
    with a show "(snd (snd (Dump rng tm h)) ! fst (Dump rng tm h)) k = None"
      by (simp add: at isExpired_def After_def)
  next
    fix k e
    assume a: "m tm k = Some e \<and> \<not> isExpired t1 e"
    with seen obtain t where "map_of rng k = Some t" "t \<le> t1" by blast
    with a show "(snd (snd (Dump rng tm h)) ! fst (Dump rng tm h)) k = Some (v e)"
      by (simp add: at isExpired_def After_def)
  next
    fix k
    assume "m tm k = None"
    then show "(snd (snd (Dump rng tm h)) ! fst (Dump rng tm h)) k = None"
      by (simp add: at split: option.split)
  qed
qed

lemma Dump_cell:
  assumes d: "distinct (map fst rng)"
  shows "(snd (snd (Dump rng tm h)) ! fst (Dump rng tm h)) k =
      (case map_of rng k of
         None \<Rightarrow> None
       | Some t \<Rightarrow>
           (case m tm k of None \<Rightarrow> None | Some e \<Rightarrow> if isExpired t e then None else Some (v e)))"
proof -
  have "length h < length (h @ [Map.empty])" by simp
  from Dump_loop_at [OF this d, of "m tm" k] show ?thesis
    by (simp add: Dump_unfold split: option.split)
qed

lemma Dump_at_reading:
  assumes rng: "ranges rng (m tm)" and visit: "(k, t) \<in> set rng"
  shows "(snd (snd (Dump rng tm h)) ! fst (Dump rng tm h)) k =
      (case m tm k of None \<Rightarrow> None | Some e \<Rightarrow> if isExpired t e then None else Some (v e))"
proof -
  from rng have d: "distinct (map fst rng)"
    by (simp add: ranges_def)
  from visit have "map_of rng k = Some t"
    by (simp add: map_of_eq_Some_iff [OF d])
  then show ?thesis
    by (simp add: Dump_cell [OF d])
qed

lemma Dump_absent:
  assumes rng: "ranges rng (m tm)" and absent: "m tm k = None"
  shows "(snd (snd (Dump rng tm h)) ! fst (Dump rng tm h)) k = None"
proof -
  from rng have d: "distinct (map fst rng)"
    by (simp add: ranges_def)
  show ?thesis
    using absent by (simp add: Dump_cell [OF d] split: option.split)
qed

lemma Dump_same_reading:
  assumes rng: "ranges rng (m tm)" and same: "\<forall>(k, t) \<in> set rng. t = now"
  shows "(snd (snd (Dump rng tm h)) ! fst (Dump rng tm h)) k =
      (case m tm k of None \<Rightarrow> None | Some e \<Rightarrow> if isExpired now e then None else Some (v e))"
proof (cases "m tm k")
  case None
  then show ?thesis using Dump_absent [OF rng None, of h] by simp
next
  case (Some e)
  from rng have keys: "fst ` set rng = dom (m tm)"
    by (simp add: ranges_def)
  with Some have "k \<in> fst ` set rng" by auto
  then obtain t where "(k, t) \<in> set rng" by auto
  with same have visit: "(k, now) \<in> set rng" by auto
  show ?thesis by (rule Dump_at_reading [OF rng visit])
qed

lemma Dump_frame:
  "fst (Dump rng tm h) = length h \<and>
   fst (snd (Dump rng tm h)) = tm \<and>
   length (snd (snd (Dump rng tm h))) = Suc (length h) \<and>
   (\<forall>b < length h. snd (snd (Dump rng tm h)) ! b = h ! b)"
  by (simp add: Dump_unfold Dump_loop_length Dump_loop_other nth_append)

lemma Dump_heap_free:
  assumes d: "distinct (map fst rng)"
  shows "snd (snd (Dump rng tm h1)) ! fst (Dump rng tm h1) =
         snd (snd (Dump rng tm h2)) ! fst (Dump rng tm h2)"
  by (rule ext) (simp add: Dump_cell [OF d])

text \<open>
  C6. A \<open>Dump\<close> visits every key once and tests each entry at the reading of the
  clock of its visit. The reference it returns is to a standard map that did not
  exist before the call; the standard maps that existed are as they were, and so is the
  timed map, expired entries included. The new map holds exactly the keys whose entry
  is not expired at the reading of its visit, each with the stored value. When the
  readings of the call lie between \<open>t0\<close> and \<open>t1\<close>, it holds no entry expired
  at \<open>t0\<close> and every entry not expired at \<open>t1\<close>; when the call is one instant
  \<open>now\<close>, it holds exactly the entries not expired at \<open>now\<close>.

  Afterwards the two do not affect each other. Whatever \<open>Set\<close>, \<open>Delete\<close>,
  \<open>SetExpiration\<close>, \<open>Reset\<close> and \<open>Purge\<close> make of the timed map, they return
  the timed map alone, and a \<open>Dump\<close> that follows allocates another map and leaves
  the first snapshot as it is. Writing and deleting through the returned reference
  changes no other standard map, and a \<open>Dump\<close> that follows returns the timed map
  unchanged and a snapshot with the contents it would have had without the write.
\<close>

theorem Dump_snapshot:
  assumes rng: "ranges rng (m tm)" and call: "Dump rng tm h = (dumpm, tm', h')"
  shows "dumpm = length h \<and> length h' = Suc (length h) \<and>
         (\<forall>b < length h. h' ! b = h ! b) \<and>
         tm' = tm \<and>
         (\<forall>(k, t) \<in> set rng. (h' ! dumpm) k =
            (case m tm k of
               None \<Rightarrow> None
             | Some e \<Rightarrow> if isExpired t e then None else Some (v e))) \<and>
         (\<forall>k. m tm k = None \<longrightarrow> (h' ! dumpm) k = None) \<and>
         (\<forall>t0 t1. (\<forall>(k, t) \<in> set rng. t0 \<le> t \<and> t \<le> t1) \<longrightarrow>
            (\<forall>k e. m tm k = Some e \<and> isExpired t0 e \<longrightarrow> (h' ! dumpm) k = None) \<and>
            (\<forall>k e. m tm k = Some e \<and> \<not> isExpired t1 e \<longrightarrow> (h' ! dumpm) k = Some (v e))) \<and>
         (\<forall>now. (\<forall>(k, t) \<in> set rng. t = now) \<longrightarrow>
            (\<forall>k. (h' ! dumpm) k =
               (case m tm k of
                  None \<Rightarrow> None
                | Some e \<Rightarrow> if isExpired now e then None else Some (v e)))) \<and>
         (\<forall>rng2 now2 k x t rng3.
            snd (snd (Dump rng2 (Set now2 tm' k x) h')) ! dumpm = h' ! dumpm \<and>
            snd (snd (Dump rng2 (snd (Delete now2 tm' k)) h')) ! dumpm = h' ! dumpm \<and>
            snd (snd (Dump rng2 (snd (SetExpiration tm' k t)) h')) ! dumpm = h' ! dumpm \<and>
            snd (snd (Dump rng2 (snd (Reset now2 tm' k)) h')) ! dumpm = h' ! dumpm \<and>
            snd (snd (Dump rng2 (snd (Purge rng3 tm')) h')) ! dumpm = h' ! dumpm) \<and>
         (\<forall>rng2 tm2. fst (Dump rng2 tm2 h') \<noteq> dumpm \<and>
            snd (snd (Dump rng2 tm2 h')) ! dumpm = h' ! dumpm) \<and>
         (\<forall>k x. \<forall>b < length h'. b \<noteq> dumpm \<longrightarrow>
            heap_store dumpm k x h' ! b = h' ! b \<and> heap_delete dumpm k h' ! b = h' ! b) \<and>
         (\<forall>rng2 k x. distinct (map fst rng2) \<longrightarrow>
            fst (snd (Dump rng2 tm' (heap_store dumpm k x h'))) = tm' \<and>
            fst (snd (Dump rng2 tm' (heap_delete dumpm k h'))) = tm' \<and>
            snd (snd (Dump rng2 tm' (heap_store dumpm k x h'))) !
              fst (Dump rng2 tm' (heap_store dumpm k x h')) =
            snd (snd (Dump rng2 tm' h')) ! fst (Dump rng2 tm' h') \<and>
            snd (snd (Dump rng2 tm' (heap_delete dumpm k h'))) !
              fst (Dump rng2 tm' (heap_delete dumpm k h')) =
            snd (snd (Dump rng2 tm' h')) ! fst (Dump rng2 tm' h'))"
proof -
  from call have a: "dumpm = fst (Dump rng tm h)" and t: "tm' = fst (snd (Dump rng tm h))"
    and h': "h' = snd (snd (Dump rng tm h))"
    by simp_all
  note frame = Dump_frame [of rng tm h]
  have fresh: "dumpm = length h" and len: "length h' = Suc (length h)"
    and old: "\<forall>b < length h. h' ! b = h ! b" and same_map: "tm' = tm"
    using frame by (simp_all add: a t h')
  have each: "\<forall>(k, t) \<in> set rng. (h' ! dumpm) k =
      (case m tm k of None \<Rightarrow> None | Some e \<Rightarrow> if isExpired t e then None else Some (v e))"
    unfolding a h' using Dump_at_reading [OF rng, of _ _ h] by blast
  have absent: "\<forall>k. m tm k = None \<longrightarrow> (h' ! dumpm) k = None"
    unfolding a h' using Dump_absent [OF rng, of _ h] by blast
  have between: "\<forall>t0 t1. (\<forall>(k, t) \<in> set rng. t0 \<le> t \<and> t \<le> t1) \<longrightarrow>
      (\<forall>k e. m tm k = Some e \<and> isExpired t0 e \<longrightarrow> (h' ! dumpm) k = None) \<and>
      (\<forall>k e. m tm k = Some e \<and> \<not> isExpired t1 e \<longrightarrow> (h' ! dumpm) k = Some (v e))"
  proof (intro allI impI)
    fix t0 t1
    assume span: "\<forall>(k, t) \<in> set rng. t0 \<le> t \<and> t \<le> t1"
    show "(\<forall>k e. m tm k = Some e \<and> isExpired t0 e \<longrightarrow> (h' ! dumpm) k = None) \<and>
      (\<forall>k e. m tm k = Some e \<and> \<not> isExpired t1 e \<longrightarrow> (h' ! dumpm) k = Some (v e))"
      unfolding a h' using Dump_between [OF rng span, of h] by blast
  qed
  have instant: "\<forall>now. (\<forall>(k, t) \<in> set rng. t = now) \<longrightarrow>
      (\<forall>k. (h' ! dumpm) k =
         (case m tm k of
            None \<Rightarrow> None
          | Some e \<Rightarrow> if isExpired now e then None else Some (v e)))"
  proof (intro allI impI)
    fix now k
    assume same: "\<forall>(k, t) \<in> set rng. t = now"
    show "(h' ! dumpm) k =
        (case m tm k of None \<Rightarrow> None | Some e \<Rightarrow> if isExpired now e then None else Some (v e))"
      unfolding a h' by (rule Dump_same_reading [OF rng same])
  qed
  have later: "\<forall>rng2 tm2. fst (Dump rng2 tm2 h') \<noteq> dumpm \<and>
      snd (snd (Dump rng2 tm2 h')) ! dumpm = h' ! dumpm"
  proof (intro allI)
    fix rng2 tm2
    show "fst (Dump rng2 tm2 h') \<noteq> dumpm \<and> snd (snd (Dump rng2 tm2 h')) ! dumpm = h' ! dumpm"
      using Dump_frame [of rng2 tm2 h'] by (simp add: fresh len)
  qed
  have methods: "\<forall>rng2 now2 k x t rng3.
      snd (snd (Dump rng2 (Set now2 tm' k x) h')) ! dumpm = h' ! dumpm \<and>
      snd (snd (Dump rng2 (snd (Delete now2 tm' k)) h')) ! dumpm = h' ! dumpm \<and>
      snd (snd (Dump rng2 (snd (SetExpiration tm' k t)) h')) ! dumpm = h' ! dumpm \<and>
      snd (snd (Dump rng2 (snd (Reset now2 tm' k)) h')) ! dumpm = h' ! dumpm \<and>
      snd (snd (Dump rng2 (snd (Purge rng3 tm')) h')) ! dumpm = h' ! dumpm"
    using later by simp
  have writes: "\<forall>k x. \<forall>b < length h'. b \<noteq> dumpm \<longrightarrow>
      heap_store dumpm k x h' ! b = h' ! b \<and> heap_delete dumpm k h' ! b = h' ! b"
    by (simp add: heap_store_other heap_delete_other)
  have after_write: "\<forall>rng2 k x. distinct (map fst rng2) \<longrightarrow>
      fst (snd (Dump rng2 tm' (heap_store dumpm k x h'))) = tm' \<and>
      fst (snd (Dump rng2 tm' (heap_delete dumpm k h'))) = tm' \<and>
      snd (snd (Dump rng2 tm' (heap_store dumpm k x h'))) !
        fst (Dump rng2 tm' (heap_store dumpm k x h')) =
      snd (snd (Dump rng2 tm' h')) ! fst (Dump rng2 tm' h') \<and>
      snd (snd (Dump rng2 tm' (heap_delete dumpm k h'))) !
        fst (Dump rng2 tm' (heap_delete dumpm k h')) =
      snd (snd (Dump rng2 tm' h')) ! fst (Dump rng2 tm' h')"
  proof (intro allI impI conjI)
    fix rng2 :: "'a run" and k x
    assume d2: "distinct (map fst rng2)"
    show "fst (snd (Dump rng2 tm' (heap_store dumpm k x h'))) = tm'"
      and "fst (snd (Dump rng2 tm' (heap_delete dumpm k h'))) = tm'"
      by (simp_all add: Dump_frame)
    show "snd (snd (Dump rng2 tm' (heap_store dumpm k x h'))) !
        fst (Dump rng2 tm' (heap_store dumpm k x h')) =
      snd (snd (Dump rng2 tm' h')) ! fst (Dump rng2 tm' h')"
      by (rule Dump_heap_free [OF d2])
    show "snd (snd (Dump rng2 tm' (heap_delete dumpm k h'))) !
        fst (Dump rng2 tm' (heap_delete dumpm k h')) =
      snd (snd (Dump rng2 tm' h')) ! fst (Dump rng2 tm' h')"
      by (rule Dump_heap_free [OF d2])
  qed
  show ?thesis
    by (intro conjI; fact)
qed

theorem Dump_snapshot_witness:
  "ranges [(2, 10), (1, 12)] (m cache0) \<and>
   fst (Dump [(2, 10), (1, 12)] cache0 [[7 \<mapsto> ''z'']]) = 1 \<and>
   fst (snd (Dump [(2, 10), (1, 12)] cache0 [[7 \<mapsto> ''z'']])) = cache0 \<and>
   length (snd (snd (Dump [(2, 10), (1, 12)] cache0 [[7 \<mapsto> ''z'']]))) = 2 \<and>
   snd (snd (Dump [(2, 10), (1, 12)] cache0 [[7 \<mapsto> ''z'']])) ! 0 = [7 \<mapsto> ''z''] \<and>
   (snd (snd (Dump [(2, 10), (1, 12)] cache0 [[7 \<mapsto> ''z'']])) ! 1) 1 = None \<and>
   (snd (snd (Dump [(2, 10), (1, 12)] cache0 [[7 \<mapsto> ''z'']])) ! 1) 2 = Some ''b'' \<and>
   (snd (snd (Dump [(2, 10), (1, 12)] cache0 [[7 \<mapsto> ''z'']])) ! 1) 3 = None \<and>
   heap_store 1 2 ''c'' (snd (snd (Dump [(2, 10), (1, 12)] cache0 [[7 \<mapsto> ''z'']]))) ! 0 =
     [7 \<mapsto> ''z''] \<and>
   snd (snd (Dump [(2, 30)] (snd (Delete 13 cache0 1))
     (snd (snd (Dump [(2, 10), (1, 12)] cache0 [[7 \<mapsto> ''z'']]))))) ! 1 =
     snd (snd (Dump [(2, 10), (1, 12)] cache0 [[7 \<mapsto> ''z'']])) ! 1"
proof -
  let ?rng = "[(2, 10), (1, 12)] :: nat run"
  let ?h = "[[7 \<mapsto> ''z'']] :: (nat, string) heap"
  define h' where "h' = snd (snd (Dump ?rng cache0 ?h))"
  have r: "ranges ?rng (m cache0)"
    by (simp add: ranges_def)
  have a: "fst (Dump ?rng cache0 ?h) = 1" and t: "fst (snd (Dump ?rng cache0 ?h)) = cache0"
    by (simp_all add: Dump_unfold)
  have c: "Dump ?rng cache0 ?h = (1, cache0, h')"
    using a t by (simp add: h'_def prod_eq_iff)
  note D = Dump_snapshot [OF r c]
  note D2 = D [THEN conjunct2]
  note D3 = D2 [THEN conjunct2]
  note D5 = D3 [THEN conjunct2, THEN conjunct2]
  note D6 = D5 [THEN conjunct2]
  note D9 = D6 [THEN conjunct2, THEN conjunct2, THEN conjunct2]
  note D11 = D9 [THEN conjunct2, THEN conjunct2]
  note len = D2 [THEN conjunct1] and old = D3 [THEN conjunct1]
    and each = D5 [THEN conjunct1] and absent = D6 [THEN conjunct1]
    and methods = D9 [THEN conjunct1] and writes = D11 [THEN conjunct1]
  have l2: "length h' = 2"
    using len by simp
  have o: "h' ! 0 = [7 \<mapsto> ''z'']"
    using old by simp
  have n1: "(h' ! 1) 1 = None" and n2: "(h' ! 1) 2 = Some ''b''"
    using each by (simp_all add: isExpired_def After_def)
  have n3: "(h' ! 1) 3 = None"
    using absent [THEN spec, of 3] by simp
  have w: "heap_store 1 2 ''c'' h' ! 0 = [7 \<mapsto> ''z'']"
    using writes l2 o by simp
  have d: "snd (snd (Dump [(2, 30)] (snd (Delete 13 cache0 1)) h')) ! 1 = h' ! 1"
    using methods [THEN spec, of "[(2, 30)]", THEN spec, of 13, THEN spec, of 1] by blast
  show ?thesis
    using r a t l2 o n1 n2 n3 w d unfolding h'_def by blast
qed

section \<open>The states of an entry\<close>

lemma state_of_cong: "m tm1 k = m tm2 k \<Longrightarrow> state_of now tm1 k = state_of now tm2 k"
  by (simp add: state_of_def)

text \<open>
  C9, as stated, fails: an entry that is expired and still in the backing map becomes
  live again, with no step through absent, by \<open>Reset\<close>, by \<open>SetExpiration\<close> with a
  later instant and by \<open>Set\<close>; and \<open>SetExpiration\<close> with an earlier instant takes a
  live entry to expired with no time passing. At the clock reading 10, key 1 of the
  example is expired and key 2 is live.
\<close>

theorem expired_entry_revived:
  "state_of 10 cache0 1 = Expired \<and>
   fst (Get '''' 10 cache0 1) = ('''', False) \<and>
   fst (Reset 10 cache0 1) = True \<and>
   state_of 10 (snd (Reset 10 cache0 1)) 1 = Live \<and>
   fst (Get '''' 10 (snd (Reset 10 cache0 1)) 1) = (''a'', True) \<and>
   state_of 10 (snd (SetExpiration cache0 1 50)) 1 = Live \<and>
   state_of 10 (Set 10 cache0 1 ''c'') 1 = Live \<and>
   state_of 10 cache0 2 = Live \<and>
   state_of 10 (snd (SetExpiration cache0 2 4)) 2 = Expired"
  by (simp add: state_of_def Get_def Reset_def SetExpiration_def Set_def isExpired_def
      After_def Add_def)

text \<open>
  C9, amended. The state of the entry of a key \<open>k\<close>, seen at the clock reading of
  the call, changes as follows and in no other way. \<open>Set\<close> of \<open>k\<close> leads from
  any state to live (to expired when the default expiration is negative). \<open>Delete\<close>
  of \<open>k\<close> leads from any state to absent. \<open>SetExpiration\<close> and \<open>Reset\<close> of
  \<open>k\<close> leave absent as it is and lead from live and from expired alike to expired when
  the new expiration is before the reading and to live otherwise. \<open>Purge\<close> tests
  the entry of \<open>k\<close> at the reading \<open>u\<close> of its visit: an entry expired at
  \<open>u\<close> becomes absent, an entry live at \<open>u\<close> stays as it is, and an absent key
  stays absent. \<open>Get\<close>, \<open>Dump\<close> and the calls on another key leave the state. The passage of time leaves absent and expired, so it
  can only lead from live to expired.
\<close>

theorem entry_transitions:
  "state_of now (Set now tm k x) k = (if defaultExpiration tm < 0 then Expired else Live) \<and>
   state_of now (snd (Delete now tm k)) k = Absent \<and>
   state_of now (snd (SetExpiration tm k t)) k =
     (if state_of now tm k = Absent then Absent else if t < now then Expired else Live) \<and>
   state_of now (snd (Reset now tm k)) k =
     (if state_of now tm k = Absent then Absent
      else if defaultExpiration tm < 0 then Expired else Live) \<and>
   (ranges rng (m tm) \<and> (k, u) \<in> set rng \<longrightarrow>
      state_of u (snd (Purge rng tm)) k =
        (if state_of u tm k = Expired then Absent else state_of u tm k) \<and>
      (state_of u tm k = Live \<longrightarrow> m (snd (Purge rng tm)) k = m tm k)) \<and>
   (ranges rng (m tm) \<and> state_of now tm k = Absent \<longrightarrow>
      state_of now (snd (Purge rng tm)) k = Absent) \<and>
   state_of now (snd (Get zero now tm k)) k = state_of now tm k \<and>
   state_of now (fst (snd (Dump rng tm h))) k = state_of now tm k \<and>
   (k' \<noteq> k \<longrightarrow>
      state_of now (Set now tm k' x) k = state_of now tm k \<and>
      state_of now (snd (Delete now tm k')) k = state_of now tm k \<and>
      state_of now (snd (SetExpiration tm k' t)) k = state_of now tm k \<and>
      state_of now (snd (Reset now tm k')) k = state_of now tm k) \<and>
   (now \<le> now' \<longrightarrow>
      (state_of now' tm k = Absent) = (state_of now tm k = Absent) \<and>
      (state_of now tm k = Expired \<longrightarrow> state_of now' tm k = Expired))"
proof -
  have set: "state_of now (Set now tm k x) k = (if defaultExpiration tm < 0 then Expired else Live)"
    by (simp add: state_of_def Set_def isExpired_def After_def Add_def)
  have del: "state_of now (snd (Delete now tm k)) k = Absent"
    by (simp add: state_of_def Delete_def)
  have exp: "state_of now (snd (SetExpiration tm k t)) k =
      (if state_of now tm k = Absent then Absent else if t < now then Expired else Live)"
    by (auto simp: state_of_def SetExpiration_def isExpired_def After_def split: option.split)
  have reset: "state_of now (snd (Reset now tm k)) k =
      (if state_of now tm k = Absent then Absent
       else if defaultExpiration tm < 0 then Expired else Live)"
    by (auto simp: state_of_def Reset_def isExpired_def After_def Add_def split: option.split)
  have purge: "state_of u (snd (Purge rng tm)) k =
        (if state_of u tm k = Expired then Absent else state_of u tm k) \<and>
      (state_of u tm k = Live \<longrightarrow> m (snd (Purge rng tm)) k = m tm k)"
    if "ranges rng (m tm)" and "(k, u) \<in> set rng"
    using Purge_at_reading [OF that]
    by (auto simp: state_of_def split: option.split)
  have purge_absent: "state_of now (snd (Purge rng tm)) k = Absent"
    if "ranges rng (m tm)" and "state_of now tm k = Absent"
  proof -
    from that(2) have "m tm k = None"
      by (simp add: state_of_def split: option.splits if_splits)
    from Purge_absent [OF that(1) this] show ?thesis
      by (simp add: state_of_def)
  qed
  have get: "state_of now (snd (Get zero now tm k)) k = state_of now tm k"
    by (simp add: Get_def split: option.split)
  have dump: "state_of now (fst (snd (Dump rng tm h))) k = state_of now tm k"
    by (simp add: Dump_unfold)
  have other: "state_of now (Set now tm k' x) k = state_of now tm k \<and>
      state_of now (snd (Delete now tm k')) k = state_of now tm k \<and>
      state_of now (snd (SetExpiration tm k' t)) k = state_of now tm k \<and>
      state_of now (snd (Reset now tm k')) k = state_of now tm k"
    if "k' \<noteq> k"
  proof -
    from that have a: "m (Set now tm k' x) k = m tm k"
      and b: "m (snd (Delete now tm k')) k = m tm k"
      and c: "m (snd (SetExpiration tm k' t)) k = m tm k"
      and d: "m (snd (Reset now tm k')) k = m tm k"
      by (simp_all add: Set_def Delete_def SetExpiration_def Reset_def split: option.split)
    show ?thesis
      using state_of_cong [OF a, of now] state_of_cong [OF b, of now]
        state_of_cong [OF c, of now] state_of_cong [OF d, of now]
      by simp
  qed
  have time: "(state_of now' tm k = Absent) = (state_of now tm k = Absent) \<and>
      (state_of now tm k = Expired \<longrightarrow> state_of now' tm k = Expired)"
    if "now \<le> now'"
    using that by (simp add: state_of_def isExpired_def After_def split: option.split)
  show ?thesis
    using set del exp reset purge purge_absent get dump other time by blast
qed

theorem entry_transitions_witness:
  "state_of 10 cache0 1 = Expired \<and> state_of 10 cache0 2 = Live \<and>
   state_of 10 cache0 3 = Absent \<and>
   state_of 10 (Set 10 cache0 1 ''c'') 1 = Live \<and>
   state_of 10 (Set 10 cache0 3 ''c'') 3 = Live \<and>
   state_of 10 (snd (Delete 10 cache0 2)) 2 = Absent \<and>
   state_of 10 (snd (SetExpiration cache0 1 50)) 1 = Live \<and>
   state_of 10 (snd (SetExpiration cache0 2 4)) 2 = Expired \<and>
   state_of 10 (snd (SetExpiration cache0 3 50)) 3 = Absent \<and>
   state_of 10 (snd (Reset 10 cache0 1)) 1 = Live \<and>
   ranges [(2, 10), (1, 12)] (m cache0) \<and>
   state_of 12 cache0 1 = Expired \<and>
   state_of 12 (snd (Purge [(2, 10), (1, 12)] cache0)) 1 = Absent \<and>
   state_of 10 (snd (Purge [(2, 10), (1, 12)] cache0)) 2 = Live \<and>
   m (snd (Purge [(2, 10), (1, 12)] cache0)) 2 = m cache0 2 \<and>
   state_of 10 (snd (Purge [(2, 10), (1, 12)] cache0)) 3 = Absent \<and>
   (1::nat) \<noteq> 2 \<and> state_of 10 (snd (Delete 10 cache0 1)) 2 = Live \<and>
   (10::int) \<le> 30 \<and> state_of 30 cache0 1 = Expired \<and> state_of 30 cache0 2 = Expired"
proof -
  let ?rng = "[(2, 10), (1, 12)] :: nat run"
  have r: "ranges ?rng (m cache0)"
    by (simp add: ranges_def)
  have s1: "state_of 10 cache0 1 = Expired" and s2: "state_of 10 cache0 2 = Live"
    and s3: "state_of 10 cache0 3 = Absent" and s4: "state_of 30 cache0 2 = Expired"
    and s5: "state_of 12 cache0 1 = Expired"
    by (simp_all add: state_of_def isExpired_def After_def)
  note T1 = entry_transitions [where tm = cache0 and k = 1 and k' = 2 and now = 10
      and now' = 30 and u = 12 and rng = ?rng and x = "''c''" and t = 50 and zero = "[]"
      and h = "[]"]
  note T2 = entry_transitions [where tm = cache0 and k = 2 and k' = 1 and now = 10
      and now' = 30 and u = 10 and rng = ?rng and x = "''c''" and t = 4 and zero = "[]"
      and h = "[]"]
  note T3 = entry_transitions [where tm = cache0 and k = 3 and k' = 1 and now = 10
      and now' = 30 and u = 10 and rng = ?rng and x = "''c''" and t = 50 and zero = "[]"
      and h = "[]"]
  from T1 r s1 s5 have a: "state_of 10 (Set 10 cache0 1 ''c'') 1 = Live"
    and b: "state_of 10 (snd (SetExpiration cache0 1 50)) 1 = Live"
    and c: "state_of 10 (snd (Reset 10 cache0 1)) 1 = Live"
    and d: "state_of 12 (snd (Purge ?rng cache0)) 1 = Absent"
    and e: "state_of 30 cache0 1 = Expired"
    by simp_all
  from T2 r s2 have f: "state_of 10 (snd (Delete 10 cache0 2)) 2 = Absent"
    and g: "state_of 10 (snd (SetExpiration cache0 2 4)) 2 = Expired"
    and h: "state_of 10 (snd (Purge ?rng cache0)) 2 = Live"
    and h2: "m (snd (Purge ?rng cache0)) 2 = m cache0 2"
    and i: "state_of 10 (snd (Delete 10 cache0 1)) 2 = Live"
    by simp_all
  from T3 r s3 have j: "state_of 10 (Set 10 cache0 3 ''c'') 3 = Live"
    and k: "state_of 10 (snd (SetExpiration cache0 3 50)) 3 = Absent"
    and l: "state_of 10 (snd (Purge ?rng cache0)) 3 = Absent"
    by simp_all
  show ?thesis
    using r s1 s2 s3 s4 s5 a b c d e f g h h2 i j k l by simp
qed

end
